theory Spec2Isabelle
  imports Main "HOL-Library.Monad_Syntax"
begin

unbundle bit_operations_syntax

section \<open>The mode decoder of the Thermotron 3800 driver\<close>

text \<open>
  The driver \<^verbatim>\<open>pymeasure/instruments/thermotron/thermotron3800.py\<close> reads the reply of the
  \<^verbatim>\<open>MODE?\<close> query and decodes it with two static methods, \<^verbatim>\<open>get_bit_array_from_int\<close> and
  \<^verbatim>\<open>__translate_mode\<close>. Python integers are unbounded, so they are \<^typ>\<open>int\<close> here; the
  operators \<^verbatim>\<open>&\<close>, \<^verbatim>\<open>|\<close> and \<^verbatim>\<open><<\<close> are the two's-complement operations \<open>AND\<close>, \<open>OR\<close> and
  \<open>push_bit\<close> of \<^typ>\<open>int\<close>.
\<close>

subsection \<open>The flag enumeration\<close>

text \<open>
  \<^verbatim>\<open>class Thermotron3800Mode(IntFlag)\<close>: nine named members, eight single bits and the
  sentinel \<^verbatim>\<open>UNKNOWN_MODE = -1\<close>.
\<close>

datatype Thermotron3800Mode =
    PROGRAM_MODE
  | EDIT_MODE_STOP
  | VIEW_PROGRAM_MODE
  | EDIT_MODE_HOLD
  | MANUAL_MODE
  | DELAYED_START_MODE
  | UNUSED
  | CALIBRATION_MODE
  | UNKNOWN_MODE

fun flag_value :: "Thermotron3800Mode \<Rightarrow> int" where
  "flag_value PROGRAM_MODE = 1"
| "flag_value EDIT_MODE_STOP = 2"
| "flag_value VIEW_PROGRAM_MODE = 4"
| "flag_value EDIT_MODE_HOLD = 8"
| "flag_value MANUAL_MODE = 16"
| "flag_value DELAYED_START_MODE = 32"
| "flag_value UNUSED = 64"
| "flag_value CALIBRATION_MODE = 128"
| "flag_value UNKNOWN_MODE = - 1"

definition members :: "Thermotron3800Mode list" where
  "members = [PROGRAM_MODE, EDIT_MODE_STOP, VIEW_PROGRAM_MODE, EDIT_MODE_HOLD, MANUAL_MODE,
     DELAYED_START_MODE, UNUSED, CALIBRATION_MODE, UNKNOWN_MODE]"

text \<open>
  An \<^verbatim>\<open>IntFlag\<close> is an \<^verbatim>\<open>int\<close>: calling the class on the integers the decoder passes (the
  non-negative ones and -1) returns a flag object with that integer value (a named member
  when one has the value, an unnamed pseudo-member otherwise) and never raises, and \<^verbatim>\<open>|\<close>
  between flag objects is \<open>OR\<close> on their values. A flag
  object is therefore modelled by its integer value. The test
  \<^verbatim>\<open>Thermotron3800Mode(bit) in Thermotron3800Mode\<close> is the membership test of the enum
  library the driver was written for (CPython 3.11 and earlier): it holds when the object carries
  the name of a declared member, that is, when \<^verbatim>\<open>bit\<close> is the value of one of the nine
  members.
\<close>

definition in_Thermotron3800Mode :: "int \<Rightarrow> bool" where
  "in_Thermotron3800Mode v = (v \<in> set (map flag_value members))"

subsection \<open>Outcomes\<close>

text \<open>
  A call returns a value, raises, or does not return. The only call of the decoder that can
  raise is the coercion \<^verbatim>\<open>int(mode_coded_integer)\<close>.
\<close>

datatype error = ValueError | TypeError

datatype outcome = Returns int | Raises error | Diverges

subsection \<open>\<^verbatim>\<open>get_bit_array_from_int\<close>\<close>

text \<open>
  \<^verbatim>\<open>
  mode_bits = []
  mask = 0x1
  while mask <= mode_int:
      bit = (mode_int & mask)
      mask = mask << 1
      if bit != 0:
          mode_bits.append(bit)
  return mode_bits
  \<close>
  The loop is a function of its three variables (\<open>msk\<close> and \<open>b\<close> are the source's
  \<^verbatim>\<open>mask\<close> and \<^verbatim>\<open>bit\<close>); a run that never leaves the loop has the value \<open>None\<close>.
\<close>

partial_function (option) bit_array_loop :: "int \<Rightarrow> int \<Rightarrow> int list \<Rightarrow> int list option" where
  "bit_array_loop mode_int msk mode_bits =
     (if msk \<le> mode_int then
        (let b = mode_int AND msk;
             msk' = push_bit 1 msk
         in bit_array_loop mode_int msk' (if b \<noteq> 0 then mode_bits @ [b] else mode_bits))
      else Some mode_bits)"

declare bit_array_loop.simps [code]

definition get_bit_array_from_int :: "int \<Rightarrow> int list option" where
  "get_bit_array_from_int mode_int = bit_array_loop mode_int 1 []"

subsection \<open>\<^verbatim>\<open>__translate_mode\<close>\<close>

text \<open>
  \<^verbatim>\<open>
  mode = 0
  for bit in mode_bits:
      if Thermotron3800Mode(bit) in Thermotron3800Mode:
          mode |= Thermotron3800Mode(bit)
      else:
          mode |= Thermotron3800Mode.UNKNOWN_MODE
  return mode if mode != 0 else Thermotron3800Mode.UNKNOWN_MODE
  \<close>
\<close>

fun translate_loop :: "int list \<Rightarrow> int \<Rightarrow> int" where
  "translate_loop [] mode = mode"
| "translate_loop (b # mode_bits) mode =
     translate_loop mode_bits
       (if in_Thermotron3800Mode b then mode OR b else mode OR flag_value UNKNOWN_MODE)"

text \<open>
  The builtin \<^verbatim>\<open>int\<close> is not part of the driver; it is the parameter \<open>py_int\<close>, which maps
  the raw reply to an integer or to the exception it raises.
\<close>

definition translate_mode :: "('a \<Rightarrow> error + int) \<Rightarrow> 'a \<Rightarrow> outcome" where
  "translate_mode py_int mode_coded_integer =
     (case py_int mode_coded_integer of
        Inl e \<Rightarrow> Raises e
      | Inr mode_int \<Rightarrow>
          (case get_bit_array_from_int mode_int of
             None \<Rightarrow> Diverges
           | Some mode_bits \<Rightarrow>
               (let mode = translate_loop mode_bits 0
                in Returns (if mode \<noteq> 0 then mode else flag_value UNKNOWN_MODE))))"

text \<open>On an argument that is already an integer, \<^verbatim>\<open>int\<close> returns it.\<close>

definition int_of_int :: "int \<Rightarrow> error + int" where
  "int_of_int n = Inr n"

text \<open>The decoder on an integer status code (the specification's \<^verbatim>\<open>decode\<close>).\<close>

definition decode :: "int \<Rightarrow> outcome" where
  "decode status_code = translate_mode int_of_int status_code"

subsection \<open>The decoder with the state of the enumeration class\<close>

text \<open>
  The decoder has no variables of its own beyond its locals, but the enumeration class it
  calls has state: the class attribute \<^verbatim>\<open>_value2member_map_\<close>, a dictionary from integer
  values to flag objects. What follows is the decoder once more, with that dictionary passed
  through every call of the class, after \<^verbatim>\<open>Enum.__new__\<close>, \<^verbatim>\<open>Flag._missing_\<close>, \<^verbatim>\<open>Flag.__or__\<close>
  and \<^verbatim>\<open>EnumType.__contains__\<close> of CPython 3.11.

  A flag object is its integer value and its name. Of the name only what \<^verbatim>\<open>__contains__\<close>
  reads is kept: the declared member the object is named after, if any (the name of a
  pseudo-member is \<^verbatim>\<open>None\<close> or a composite such as \<^verbatim>\<open>PROGRAM_MODE|EDIT_MODE_STOP\<close>, never the
  name of a declared member).
\<close>

datatype flag_obj = Flag (flag_int: int) (flag_name: "Thermotron3800Mode option")

type_synonym cache = "int \<rightharpoonup> flag_obj"

text \<open>The dictionary when the class body has run: the nine declared members.\<close>

definition class_cache :: cache where
  "class_cache = map_of (map (\<lambda>m. (flag_value m, Flag (flag_value m) (Some m))) members)"

text \<open>
  \<^verbatim>\<open>Thermotron3800Mode(value)\<close> on an integer: \<^verbatim>\<open>Enum.__new__\<close> returns the cached object when
  the value is a key of the dictionary; otherwise \<^verbatim>\<open>Flag._missing_\<close> makes a pseudo-member
  with that value and stores it (\<^verbatim>\<open>_value2member_map_.setdefault(value, pseudo_member)\<close>). A
  negative value that is not a key is re-based by \<^verbatim>\<open>_missing_\<close> before it is stored; the
  decoder never makes that call (the only negative value it passes is -1, a declared
  member), and it is left out of the model: \<open>None\<close>.
\<close>

definition flag_call :: "int \<Rightarrow> cache \<Rightarrow> (flag_obj \<times> cache) option" where
  "flag_call v c =
     (case c v of
        Some f \<Rightarrow> Some (f, c)
      | None \<Rightarrow> if 0 \<le> v then Some (Flag v None, c(v \<mapsto> Flag v None)) else None)"

text \<open>
  The loop of \<^verbatim>\<open>__translate_mode\<close>: \<^verbatim>\<open>Thermotron3800Mode(bit)\<close> is a call of the class, the test
  \<^verbatim>\<open>in Thermotron3800Mode\<close> reads the name of the object returned, and \<^verbatim>\<open>mode |= x\<close> is
  \<^verbatim>\<open>Flag.__or__\<close>, which calls the class on the OR of the two values. \<open>mode\<close> is the integer
  value of the object the variable holds.
\<close>

fun translate_loop_st :: "int list \<Rightarrow> int \<Rightarrow> cache \<Rightarrow> (int \<times> cache) option" where
  "translate_loop_st [] mode c = Some (mode, c)"
| "translate_loop_st (b # mode_bits) mode c =
     do {
       (f, c1) \<leftarrow> flag_call b c;
       if flag_name f \<noteq> None then
         do {
           (g, c2) \<leftarrow> flag_call b c1;
           (h, c3) \<leftarrow> flag_call (mode OR flag_int g) c2;
           translate_loop_st mode_bits (flag_int h) c3
         }
       else
         do {
           (h, c2) \<leftarrow> flag_call (mode OR flag_value UNKNOWN_MODE) c1;
           translate_loop_st mode_bits (flag_int h) c2
         }
     }"

definition translate_mode_st ::
  "('a \<Rightarrow> error + int) \<Rightarrow> 'a \<Rightarrow> cache \<Rightarrow> (outcome \<times> cache) option" where
  "translate_mode_st py_int mode_coded_integer c =
     (case py_int mode_coded_integer of
        Inl e \<Rightarrow> Some (Raises e, c)
      | Inr mode_int \<Rightarrow>
          (case get_bit_array_from_int mode_int of
             None \<Rightarrow> Some (Diverges, c)
           | Some mode_bits \<Rightarrow>
               do {
                 (mode, c') \<leftarrow> translate_loop_st mode_bits 0 c;
                 Some (Returns (if mode \<noteq> 0 then mode else flag_value UNKNOWN_MODE), c')
               }))"

text \<open>
  The dictionaries the library can have built: every declared member is stored under its
  value, and any other non-negative key holds a pseudo-member with that value.
\<close>

definition cache_ok :: "cache \<Rightarrow> bool" where
  "cache_ok c \<longleftrightarrow>
     (\<forall>m. c (flag_value m) = Some (Flag (flag_value m) (Some m))) \<and>
     (\<forall>v f. 0 \<le> v \<and> \<not> in_Thermotron3800Mode v \<and> c v = Some f \<longrightarrow> f = Flag v None)"

subsection \<open>The specification's description of the decoder\<close>

text \<open>
  The specification describes the bit extraction as a scan of the bit positions 0 upward
  while \<^verbatim>\<open>1 << position <= status_code\<close>, collecting each set bit as its power of two. No
  position beyond \<open>status_code\<close> itself passes that test, which bounds the scan.
\<close>

definition spec_bit_positions :: "int \<Rightarrow> nat list" where
  "spec_bit_positions status_code =
     takeWhile (\<lambda>position. push_bit position 1 \<le> status_code) [0..<Suc (nat status_code)]"

definition spec_bit_array :: "int \<Rightarrow> int list" where
  "spec_bit_array status_code =
     map (\<lambda>position. push_bit position 1)
       (filter (\<lambda>position. bit status_code position) (spec_bit_positions status_code))"

text \<open>
  The specification's invariant for the result: the bitwise OR of the known flags whose bit
  is set in the status code.
\<close>

definition known_flags :: "Thermotron3800Mode list" where
  "known_flags = [PROGRAM_MODE, EDIT_MODE_STOP, VIEW_PROGRAM_MODE, EDIT_MODE_HOLD, MANUAL_MODE,
     DELAYED_START_MODE, UNUSED, CALIBRATION_MODE]"

definition spec_flags_of :: "int \<Rightarrow> Thermotron3800Mode list" where
  "spec_flags_of status_code =
     filter (\<lambda>f. status_code AND flag_value f \<noteq> 0) known_flags"

definition spec_or_flags :: "Thermotron3800Mode list \<Rightarrow> int" where
  "spec_or_flags fs = foldr (\<lambda>f acc. flag_value f OR acc) fs 0"

section \<open>Properties of the two loops\<close>

subsection \<open>What the loops compute\<close>

lemma and_exp_cases: "(m::int) AND 2 ^ k = (if bit m k then 2 ^ k else 0)"
  by (rule bit_eqI) (auto simp add: bit_simps)

lemma bit_array_loop_run:
  "m < 2 ^ n \<Longrightarrow> (\<forall>j<n. 2 ^ j \<le> m) \<Longrightarrow> k \<le> n \<Longrightarrow>
   bit_array_loop m (2 ^ k) acc = Some (acc @ map (\<lambda>i. 2 ^ i) (filter (bit m) [k..<n]))"
proof (induction "n - k" arbitrary: k acc)
  case 0
  then have "k = n" by simp
  with "0.prems" show ?case
    by (subst bit_array_loop.simps) simp
next
  case (Suc d)
  then have kn: "k < n" and le: "(2::int) ^ k \<le> m" by auto
  from Suc have d: "d = n - Suc k" by simp
  have IH: "bit_array_loop m (2 ^ k * 2) acc' = Some (acc' @ map (\<lambda>i. 2 ^ i) (filter (bit m) [Suc k..<n]))" for acc'
    using Suc.hyps(1) [OF d Suc.prems(1) Suc.prems(2), of acc'] kn by (simp add: mult.commute)
  show ?case
    using le kn IH
    by (subst bit_array_loop.simps) (simp add: Let_def and_exp_cases upt_conv_Cons)
qed

lemma bit_length_ex: "\<exists>n. (m::int) < 2 ^ n \<and> (\<forall>j<n. 2 ^ j \<le> m)"
proof -
  have ex: "\<exists>n. m < 2 ^ n"
  proof
    have "m \<le> int (nat m)" by simp
    also have "\<dots> < int (2 ^ nat m)" by (simp only: of_nat_less_iff less_exp)
    also have "\<dots> = 2 ^ nat m" by simp
    finally show "m < 2 ^ nat m" .
  qed
  define n where "n = (LEAST n. m < 2 ^ n)"
  have "m < 2 ^ n" unfolding n_def using ex by (rule LeastI_ex)
  moreover have "2 ^ j \<le> m" if "j < n" for j
    using not_less_Least [of j "\<lambda>n. m < 2 ^ n"] that by (simp add: n_def not_less)
  ultimately show ?thesis by blast
qed

lemma get_bit_array_from_int_run:
  "m < 2 ^ n \<Longrightarrow> (\<forall>j<n. 2 ^ j \<le> m) \<Longrightarrow>
   get_bit_array_from_int m = Some (map (\<lambda>i. 2 ^ i) (filter (bit m) [0..<n]))"
  using bit_array_loop_run [of m n 0 "[]"] by (simp add: get_bit_array_from_int_def)

lemma in_Thermotron3800Mode_exp: "in_Thermotron3800Mode (2 ^ i) \<longleftrightarrow> i < 8"
proof (cases "i < 8")
  case True
  then have "i \<in> {0, 1, 2, 3, 4, 5, 6, 7}" by auto
  then show ?thesis
    by (auto simp add: in_Thermotron3800Mode_def members_def)
next
  case False
  then have "(2::int) ^ 8 \<le> 2 ^ i" by (intro power_increasing) simp_all
  then have "(256::int) \<le> 2 ^ i" by simp
  with False show ?thesis
    by (auto simp add: in_Thermotron3800Mode_def members_def)
qed

lemma translate_loop_append:
  "translate_loop (xs @ ys) mode = translate_loop ys (translate_loop xs mode)"
  by (induction xs arbitrary: mode) simp_all

lemma translate_loop_sticky: "translate_loop bs (- 1) = - 1"
  by (induction bs) simp_all

lemma translate_loop_unknown:
  "b \<in> set bs \<Longrightarrow> \<not> in_Thermotron3800Mode b \<Longrightarrow> translate_loop bs mode = - 1"
proof (induction bs arbitrary: mode)
  case Nil
  then show ?case by simp
next
  case (Cons a bs)
  then show ?case by (cases "a = b") (auto simp add: translate_loop_sticky)
qed

lemma take_bit_Suc_or:
  "take_bit (Suc n) (m::int) = take_bit n m OR (if bit m n then 2 ^ n else 0)"
  by (rule bit_eqI) (auto simp add: bit_simps less_Suc_eq)

lemma translate_loop_known:
  "n \<le> 8 \<Longrightarrow>
   translate_loop (map (\<lambda>i. 2 ^ i) (filter (bit m) [0..<n])) mode = mode OR take_bit n m"
proof (induction n)
  case 0
  then show ?case by simp
next
  case (Suc n)
  then show ?case
    by (simp add: translate_loop_append in_Thermotron3800Mode_exp take_bit_Suc_or or.assoc
        del: take_bit_Suc)
qed

lemma top_bit:
  assumes "2 ^ n \<le> m" and "m < 2 ^ Suc n"
  shows "bit (m::int) n"
proof (rule ccontr)
  assume nb: "\<not> bit m n"
  from assms have "0 \<le> m" by (meson order_trans zero_le_numeral zero_le_power)
  with assms have "take_bit (Suc n) m = m" by (simp only: take_bit_int_eq_self)
  with nb have "take_bit n m = m" by (simp add: take_bit_Suc_or del: take_bit_Suc)
  moreover have "take_bit n m < 2 ^ n" by (rule take_bit_int_less_exp)
  ultimately show False using assms by simp
qed

lemma bits_below:
  assumes "0 \<le> m" and "m < 2 ^ n" and "bit (m::int) i"
  shows "i < n"
proof -
  from assms have "take_bit n m = m" by (simp only: take_bit_int_eq_self)
  with assms(3) have "bit (take_bit n m) i" by (simp only:)
  then show ?thesis by (simp only: bit_take_bit_iff)
qed

lemma decode_eq: "decode c = Returns (if 1 \<le> c \<and> c \<le> 255 then c else - 1)"
proof -
  obtain n where hi: "c < 2 ^ n" and lo: "\<forall>j<n. 2 ^ j \<le> c"
    using bit_length_ex [of c] by blast
  let ?bits = "map (\<lambda>i. 2 ^ i) (filter (bit c) [0..<n])"
  have run: "get_bit_array_from_int c = Some ?bits"
    using hi lo by (rule get_bit_array_from_int_run)
  consider "c \<le> 0" | "1 \<le> c" "c \<le> 255" | "256 \<le> c" by linarith
  then have "translate_loop ?bits 0 = (if 1 \<le> c \<and> c \<le> 255 then c else if c \<le> 0 then 0 else - 1)"
  proof cases
    case 1
    have "n = 0"
    proof (rule ccontr)
      assume "n \<noteq> 0"
      with lo have "2 ^ 0 \<le> c" by blast
      with 1 show False by simp
    qed
    with 1 show ?thesis by simp
  next
    case 2
    have "n \<le> 8"
    proof (rule ccontr)
      assume "\<not> n \<le> 8"
      then have "8 < n" by simp
      with lo have "2 ^ 8 \<le> c" by blast
      with 2 show False by simp
    qed
    moreover from 2 hi have "take_bit n c = c" by (simp only: take_bit_int_eq_self)
    ultimately show ?thesis using 2 by (simp add: translate_loop_known)
  next
    case 3
    with hi have "(2::int) ^ 8 < 2 ^ n" by simp
    then have n: "8 < n" by (simp only: power_strict_increasing_iff) 
    then obtain k where k: "n = Suc k" "8 \<le> k" by (cases n) auto
    with lo hi have "bit c k" by (intro top_bit) simp_all
    with k have "2 ^ k \<in> set ?bits" by simp
    moreover from k have "\<not> in_Thermotron3800Mode (2 ^ k)" by (simp add: in_Thermotron3800Mode_exp)
    ultimately have "translate_loop ?bits 0 = - 1" by (rule translate_loop_unknown)
    with 3 show ?thesis by simp
  qed
  with run show ?thesis
    by (simp add: decode_def translate_mode_def int_of_int_def)
qed

lemma filter_bit_exp: "filter (bit ((2::int) ^ k)) [0..<Suc k] = [k]"
  by (simp add: bit_exp_iff filter_empty_conv)

lemma get_bit_array_from_int_exp: "get_bit_array_from_int (2 ^ k) = Some [2 ^ k]"
proof -
  have "get_bit_array_from_int (2 ^ k) =
      Some (map (\<lambda>i. 2 ^ i) (filter (bit ((2::int) ^ k)) [0..<Suc k]))"
    by (rule get_bit_array_from_int_run) simp_all
  then show ?thesis by (simp only: filter_bit_exp list.map)
qed

lemma translate_mode_result:
  "translate_mode py_int x = (case py_int x of Inl e \<Rightarrow> Raises e | Inr n \<Rightarrow> decode n)"
  by (simp add: decode_def translate_mode_def int_of_int_def split: sum.split)

text \<open>
  The start value of the mask matters: with the mask 0, which shifting never changes, the
  loop does not end on a non-negative input.
\<close>

lemma bit_array_loop_zero_mask:
  assumes "0 \<le> mode_int"
  shows "bit_array_loop mode_int 0 mode_bits = None"
proof (rule ccontr)
  assume "bit_array_loop mode_int 0 mode_bits \<noteq> None"
  then obtain r where r: "bit_array_loop mode_int 0 mode_bits = Some r" by blast
  have "0 = (0::int) \<longrightarrow> mode_int < 0"
  proof (rule bit_array_loop.raw_induct
      [where P = "\<lambda>mode_int msk mode_bits r. msk = 0 \<longrightarrow> mode_int < 0", OF _ r], goal_cases)
    case (1 loop mode_int msk mode_bits r)
    show ?case
    proof
      assume z: "msk = 0"
      show "mode_int < 0"
      proof (rule ccontr)
        assume "\<not> mode_int < 0"
        with z 1(2) have "loop mode_int 0 mode_bits = Some r" by (simp add: Let_def)
        then have "(0::int) = 0 \<longrightarrow> mode_int < 0" by (rule 1(1))
        with \<open>\<not> mode_int < 0\<close> show False by simp
      qed
    qed
  qed
  with assms show False by simp
qed

subsection \<open>The source against the specification's description\<close>

lemma takeWhile_upt:
  "(\<forall>j<n. P j) \<Longrightarrow> \<not> P n \<Longrightarrow> n < N \<Longrightarrow> takeWhile P [0..<N] = [0..<n]"
proof -
  assume P: "\<forall>j<n. P j" and nP: "\<not> P n" and n: "n < N"
  from n have "[0..<N] = [0..<n] @ [n..<n + (N - n)]"
    using upt_add_eq_append [of 0 n "N - n"] by simp
  also from n have "[n..<n + (N - n)] = n # [Suc n..<N]"
    by (simp add: upt_conv_Cons)
  finally have "takeWhile P [0..<N] = takeWhile P ([0..<n] @ n # [Suc n..<N])"
    by (simp only:)
  also have "\<dots> = [0..<n] @ takeWhile P (n # [Suc n..<N])"
    by (rule takeWhile_append2) (use P in simp)
  also have "\<dots> = [0..<n]"
    using nP by simp
  finally show ?thesis .
qed

lemma spec_bit_positions_eq:
  assumes "m < 2 ^ n" and "\<forall>j<n. 2 ^ j \<le> m"
  shows "spec_bit_positions m = [0..<n]"
proof -
  have "n \<le> nat m"
  proof (cases n)
    case 0
    then show ?thesis by simp
  next
    case (Suc k)
    with assms(2) have "(2::int) ^ k \<le> m" by simp
    moreover have "int (Suc k) \<le> 2 ^ k"
    proof -
      have "Suc k \<le> 2 ^ k" by (induction k) simp_all
      then have "int (Suc k) \<le> int (2 ^ k)" by (simp only: of_nat_le_iff)
      then show ?thesis by simp
    qed
    ultimately show ?thesis using Suc by simp
  qed
  then have "n < Suc (nat m)" by simp
  moreover have "\<forall>j<n. push_bit j 1 \<le> m" using assms(2) by (simp add: push_bit_eq_mult)
  moreover have "\<not> push_bit n 1 \<le> m" using assms(1) by (simp add: push_bit_eq_mult)
  ultimately show ?thesis
    unfolding spec_bit_positions_def by (intro takeWhile_upt)
qed

lemma get_bit_array_from_int_spec: "get_bit_array_from_int m = Some (spec_bit_array m)"
proof -
  obtain n where n: "m < 2 ^ n" "\<forall>j<n. 2 ^ j \<le> m"
    using bit_length_ex [of m] by blast
  then show ?thesis
    by (simp add: get_bit_array_from_int_run [OF n] spec_bit_array_def spec_bit_positions_eq [OF n]
        push_bit_eq_mult)
qed

lemma spec_bit_array_run:
  "m < 2 ^ n \<Longrightarrow> (\<forall>j<n. 2 ^ j \<le> m) \<Longrightarrow>
   spec_bit_array m = map (\<lambda>i. 2 ^ i) (filter (bit m) [0..<n])"
  by (simp add: spec_bit_array_def spec_bit_positions_eq push_bit_eq_mult)

lemma sum_list_bits: "sum_list (map (\<lambda>i. 2 ^ i) (filter (bit m) [0..<n])) = take_bit n (m::int)"
  by (induction n) (simp_all add: take_bit_Suc_from_most del: take_bit_Suc)

lemma sorted_bits: "sorted_wrt (<) (map (\<lambda>i. (2::int) ^ i) (filter P [0..<n]))"
  by (simp add: sorted_wrt_map sorted_wrt_filter)

lemma spec_or_flags_filter_Cons:
  "spec_or_flags (filter P (f # fs)) =
     (if P f then flag_value f else 0) OR spec_or_flags (filter P fs)"
  by (simp add: spec_or_flags_def)

lemma spec_or_flags_Nil: "spec_or_flags (filter P []) = 0"
  by (simp add: spec_or_flags_def)

lemma spec_or_flags_of: "spec_or_flags (spec_flags_of c) = take_bit 8 c"
proof -
  have e: "(if c AND v \<noteq> 0 then v else 0) = c AND v" if "v = 2 ^ k" for v :: int and k :: nat
    using that by (simp add: and_exp_cases)
  have "spec_or_flags (spec_flags_of c) =
      (c AND 1) OR ((c AND 2) OR ((c AND 4) OR ((c AND 8) OR ((c AND 16) OR ((c AND 32) OR
        ((c AND 64) OR (c AND 128)))))))"
    unfolding spec_flags_of_def known_flags_def spec_or_flags_filter_Cons spec_or_flags_Nil
      flag_value.simps
    using e [of 1 0] e [of 2 1] e [of 4 2] e [of 8 3] e [of 16 4] e [of 32 5] e [of 64 6]
      e [of 128 7]
    by simp
  also have "\<dots> = c AND (1 OR (2 OR (4 OR (8 OR (16 OR (32 OR (64 OR 128)))))))"
    by (simp only: bit.conj_disj_distrib)
  also have "\<dots> = c AND mask 8" by (simp add: mask_numeral)
  finally show ?thesis by (simp add: take_bit_eq_mask)
qed

subsection \<open>The decoder with the class state\<close>

lemma in_Thermotron3800Mode_iff: "in_Thermotron3800Mode v \<longleftrightarrow> (\<exists>m. flag_value m = v)"
proof -
  have "set members = UNIV"
  proof -
    have "m \<in> set members" for m by (cases m) (simp_all add: members_def)
    then show ?thesis by blast
  qed
  then show ?thesis by (auto simp add: in_Thermotron3800Mode_def)
qed

lemma flag_value_inject: "flag_value m = flag_value m' \<Longrightarrow> m = m'"
  by (cases m; cases m') simp_all

lemma class_cache_member: "class_cache (flag_value m) = Some (Flag (flag_value m) (Some m))"
  by (cases m) (simp_all add: class_cache_def members_def)

lemma class_cache_dom: "class_cache v = Some f \<Longrightarrow> in_Thermotron3800Mode v"
  by (auto simp add: class_cache_def in_Thermotron3800Mode_def dest!: map_of_SomeD)

lemma cache_ok_class_cache: "cache_ok class_cache"
  unfolding cache_ok_def using class_cache_member class_cache_dom by blast

lemma flag_call_ok:
  assumes ok: "cache_ok c" and v: "0 \<le> v \<or> v = - 1"
  shows "\<exists>f c'. flag_call v c = Some (f, c') \<and> flag_int f = v \<and>
           (flag_name f \<noteq> None) = in_Thermotron3800Mode v \<and> cache_ok c' \<and> c \<subseteq>\<^sub>m c'"
proof (cases "in_Thermotron3800Mode v")
  case True
  then obtain m where m: "flag_value m = v" by (auto simp add: in_Thermotron3800Mode_iff)
  with ok have "c v = Some (Flag v (Some m))" by (auto simp add: cache_ok_def)
  with True ok show ?thesis by (simp add: flag_call_def)
next
  case False
  have "\<not> v = - 1"
  proof
    assume "v = - 1"
    then have "flag_value UNKNOWN_MODE = v" by simp
    with False show False by (auto simp only: in_Thermotron3800Mode_iff)
  qed
  with v have nonneg: "0 \<le> v" by simp
  show ?thesis
  proof (cases "c v")
    case (Some f)
    with ok nonneg False have "f = Flag v None" by (simp add: cache_ok_def)
    with Some False ok show ?thesis by (simp add: flag_call_def)
  next
    case None
    have "cache_ok (c(v \<mapsto> Flag v None))"
      using ok False by (auto simp add: cache_ok_def in_Thermotron3800Mode_iff)
    moreover have "c \<subseteq>\<^sub>m c(v \<mapsto> Flag v None)"
      using None by (auto simp add: map_le_def)
    ultimately show ?thesis using None nonneg False by (simp add: flag_call_def)
  qed
qed

lemma translate_loop_st_ok:
  assumes "cache_ok c" and "\<forall>b\<in>set mode_bits. 0 \<le> b" and "0 \<le> mode \<or> mode = - 1"
  shows "\<exists>c'. translate_loop_st mode_bits mode c = Some (translate_loop mode_bits mode, c') \<and>
           cache_ok c' \<and> c \<subseteq>\<^sub>m c'"
  using assms
proof (induction mode_bits arbitrary: mode c)
  case Nil
  then show ?case by simp
next
  case (Cons b mode_bits)
  from Cons.prems have b: "0 \<le> b" and rest: "\<forall>b\<in>set mode_bits. 0 \<le> b" by simp_all
  from flag_call_ok [OF Cons.prems(1), of b] b
  obtain f c1 where f: "flag_call b c = Some (f, c1)" "flag_int f = b"
      "(flag_name f \<noteq> None) = in_Thermotron3800Mode b" "cache_ok c1" "c \<subseteq>\<^sub>m c1"
    by auto
  show ?case
  proof (cases "in_Thermotron3800Mode b")
    case True
    from flag_call_ok [OF f(4), of b] b
    obtain g c2 where g: "flag_call b c1 = Some (g, c2)" "flag_int g = b" "cache_ok c2"
        "c1 \<subseteq>\<^sub>m c2"
      by auto
    from Cons.prems(3) b have m: "0 \<le> mode OR b \<or> mode OR b = - 1" by auto
    from flag_call_ok [OF g(3) m]
    obtain h c3 where h: "flag_call (mode OR b) c2 = Some (h, c3)" "flag_int h = mode OR b"
        "cache_ok c3" "c2 \<subseteq>\<^sub>m c3"
      by auto
    from Cons.IH [OF h(3) rest m]
    obtain c' where c': "translate_loop_st mode_bits (mode OR b) c3 =
        Some (translate_loop mode_bits (mode OR b), c')" "cache_ok c'" "c3 \<subseteq>\<^sub>m c'"
      by auto
    have "c \<subseteq>\<^sub>m c'"
      using f(5) g(4) h(4) c'(3) by (blast intro: map_le_trans)
    with True f g h c' show ?thesis by simp
  next
    case False
    have m: "0 \<le> mode OR - 1 \<or> mode OR - 1 = - 1" by simp
    from flag_call_ok [OF f(4) m]
    obtain h c2 where h: "flag_call (mode OR - 1) c1 = Some (h, c2)" "flag_int h = mode OR - 1"
        "cache_ok c2" "c1 \<subseteq>\<^sub>m c2"
      by auto
    from Cons.IH [OF h(3) rest m]
    obtain c' where c': "translate_loop_st mode_bits (mode OR - 1) c2 =
        Some (translate_loop mode_bits (mode OR - 1), c')" "cache_ok c'" "c2 \<subseteq>\<^sub>m c'"
      by auto
    have "c \<subseteq>\<^sub>m c'"
      using f(5) h(4) c'(3) by (blast intro: map_le_trans)
    with False f h c' show ?thesis by simp
  qed
qed

lemma get_bit_array_from_int_nonneg:
  "get_bit_array_from_int n = Some mode_bits \<Longrightarrow> \<forall>b\<in>set mode_bits. 0 \<le> b"
proof -
  obtain k where "n < 2 ^ k" and "\<forall>j<k. 2 ^ j \<le> n"
    using bit_length_ex [of n] by blast
  then have "get_bit_array_from_int n = Some (map (\<lambda>i. 2 ^ i) (filter (bit n) [0..<k]))"
    by (rule get_bit_array_from_int_run)
  moreover assume "get_bit_array_from_int n = Some mode_bits"
  ultimately show ?thesis by auto
qed

lemma translate_mode_st_ok:
  assumes "cache_ok c"
  shows "\<exists>c'. translate_mode_st py_int x c = Some (translate_mode py_int x, c') \<and>
           cache_ok c' \<and> c \<subseteq>\<^sub>m c'"
proof (cases "py_int x")
  case (Inl e)
  with assms show ?thesis by (simp add: translate_mode_st_def translate_mode_def)
next
  case (Inr n)
  show ?thesis
  proof (cases "get_bit_array_from_int n")
    case None
    with Inr assms show ?thesis by (simp add: translate_mode_st_def translate_mode_def)
  next
    case (Some mode_bits)
    then have "\<forall>b\<in>set mode_bits. 0 \<le> b" by (rule get_bit_array_from_int_nonneg)
    with assms obtain c' where "translate_loop_st mode_bits 0 c =
        Some (translate_loop mode_bits 0, c')" "cache_ok c'" "c \<subseteq>\<^sub>m c'"
      using translate_loop_st_ok [of c mode_bits 0] by auto
    with Inr Some show ?thesis by (simp add: translate_mode_st_def translate_mode_def)
  qed
qed

text \<open>
  The result is read from the dictionary: on a dictionary the library cannot have built, where
  the key 256 holds an object named after a declared member, the same call returns 256 and
  not \<^verbatim>\<open>UNKNOWN_MODE\<close>.
\<close>

lemma translate_mode_st_reads_cache:
  "map_option fst
     (translate_mode_st int_of_int (256::int)
        (class_cache(256 \<mapsto> Flag 256 (Some PROGRAM_MODE)))) = Some (Returns 256)"
  by (simp add: translate_mode_st_def int_of_int_def get_bit_array_from_int_exp [of 8, simplified]
      flag_call_def class_cache_def members_def)

section \<open>The claims\<close>

text \<open>
  Claim C1. A status code whose only set bit lies outside the eight known flag values, such
  as 256 (bit 8), decodes to the sentinel \<^verbatim>\<open>UNKNOWN_MODE\<close>: the bit is extracted as itself,
  is not a member of the enumeration, and is folded into \<^verbatim>\<open>UNKNOWN_MODE\<close>; nothing is raised
  and the bit does not appear in the result.
\<close>

theorem decode_unrecognized_bit:
  "8 \<le> k \<Longrightarrow>
   get_bit_array_from_int (2 ^ k) = Some [2 ^ k] \<and> \<not> in_Thermotron3800Mode (2 ^ k) \<and>
   decode (2 ^ k) = Returns (flag_value UNKNOWN_MODE)"
proof -
  assume k: "8 \<le> k"
  then have "(2::int) ^ 8 \<le> 2 ^ k" by (intro power_increasing) simp_all
  then have "\<not> (2::int) ^ k \<le> 255" by simp
  with k show ?thesis
    by (simp add: get_bit_array_from_int_exp in_Thermotron3800Mode_exp decode_eq)
qed

theorem decode_unrecognized_bit_witness:
  "(8::nat) \<le> 8 \<and> get_bit_array_from_int 256 = Some [256] \<and> \<not> in_Thermotron3800Mode 256 \<and>
   decode 256 = Returns (- 1)"
  using decode_unrecognized_bit [of 8] by simp

text \<open>
  Claim C2. For every status code from 1 to 255 the decoder decomposes the code exactly along
  its set bits and drops none: the result is the bitwise OR of the known flags whose bit is
  set, and its integer value is the status code. In particular \<^verbatim>\<open>decode(1)\<close> is
  \<^verbatim>\<open>PROGRAM_MODE\<close>, \<^verbatim>\<open>decode(3)\<close> is \<^verbatim>\<open>PROGRAM_MODE | EDIT_MODE_STOP\<close> and \<^verbatim>\<open>decode(129)\<close> is
  \<^verbatim>\<open>PROGRAM_MODE | CALIBRATION_MODE\<close>.
\<close>

theorem decode_known_range:
  "(1 \<le> status_code \<and> status_code \<le> 255 \<longrightarrow>
      decode status_code = Returns (spec_or_flags (spec_flags_of status_code)) \<and>
      spec_or_flags (spec_flags_of status_code) = status_code) \<and>
   decode 1 = Returns (flag_value PROGRAM_MODE) \<and>
   decode 3 = Returns (flag_value PROGRAM_MODE OR flag_value EDIT_MODE_STOP) \<and>
   decode 129 = Returns (flag_value PROGRAM_MODE OR flag_value CALIBRATION_MODE)"
proof -
  have "take_bit 8 status_code = status_code" if "1 \<le> status_code" "status_code \<le> 255"
    using that by (simp add: take_bit_int_eq_self)
  then show ?thesis
    by (simp add: decode_eq spec_or_flags_of)
qed

theorem decode_known_range_witness:
  "(1::int) \<le> 77 \<and> (77::int) \<le> 255 \<and>
   spec_flags_of 77 = [PROGRAM_MODE, VIEW_PROGRAM_MODE, EDIT_MODE_HOLD, UNUSED] \<and>
   decode 77 = Returns 77 \<and> spec_or_flags (spec_flags_of 77) = 77"
proof -
  have "spec_flags_of 77 = [PROGRAM_MODE, VIEW_PROGRAM_MODE, EDIT_MODE_HOLD, UNUSED]"
    by code_simp
  with decode_known_range [of 77] show ?thesis by simp
qed

text \<open>
  Claim C3. A status code with at least one recognized bit (below bit 8) and at least one
  unrecognized bit (bit 8 or above), such as 257, decodes to \<^verbatim>\<open>UNKNOWN_MODE\<close>: both bits are
  extracted, the unrecognized one ORs the sentinel -1 into the accumulation, and since -1
  has every bit set the result is -1, in which the recognized flags cannot be told apart.
\<close>

theorem decode_mixed_bits:
  assumes "0 \<le> status_code" and "i < 8" and "bit status_code i"
    and "8 \<le> j" and "bit status_code j"
  shows "(\<exists>mode_bits. get_bit_array_from_int status_code = Some mode_bits \<and>
            2 ^ i \<in> set mode_bits \<and> in_Thermotron3800Mode (2 ^ i) \<and>
            2 ^ j \<in> set mode_bits \<and> \<not> in_Thermotron3800Mode (2 ^ j) \<and>
            translate_loop mode_bits 0 = flag_value UNKNOWN_MODE) \<and>
         2 ^ i OR flag_value UNKNOWN_MODE = flag_value UNKNOWN_MODE \<and>
         decode status_code = Returns (flag_value UNKNOWN_MODE)"
proof -
  obtain n where hi: "status_code < 2 ^ n" and lo: "\<forall>j<n. 2 ^ j \<le> status_code"
    using bit_length_ex [of status_code] by blast
  let ?bits = "map (\<lambda>i. 2 ^ i) (filter (bit status_code) [0..<n])"
  have run: "get_bit_array_from_int status_code = Some ?bits"
    using hi lo by (rule get_bit_array_from_int_run)
  from assms(1) hi assms(5) have jn: "j < n" by (rule bits_below)
  with assms(2,4) have "i < n" by simp
  with assms(3) have i: "2 ^ i \<in> set ?bits" by simp
  from jn assms(5) have j: "2 ^ j \<in> set ?bits" by simp
  from assms(4) have nj: "\<not> in_Thermotron3800Mode (2 ^ j)"
    by (simp add: in_Thermotron3800Mode_exp)
  from j nj have "translate_loop ?bits 0 = - 1" by (rule translate_loop_unknown)
  moreover have "(256::int) \<le> status_code"
  proof -
    from assms(4) have "(2::int) ^ 8 \<le> 2 ^ j" by (intro power_increasing) simp_all
    moreover from jn lo have "2 ^ j \<le> status_code" by blast
    ultimately show ?thesis by simp
  qed
  ultimately show ?thesis
    using run i j nj assms(2) by (simp add: in_Thermotron3800Mode_exp decode_eq)
qed

theorem decode_mixed_bits_witness:
  "(0::int) \<le> 257 \<and> (0::nat) < 8 \<and> bit (257::int) 0 \<and> (8::nat) \<le> 8 \<and> bit (257::int) 8 \<and>
   get_bit_array_from_int 257 = Some [1, 256] \<and> decode 257 = Returns (- 1)"
proof -
  have b0: "bit (257::int) 0" by simp
  have b8: "bit (257::int) 8" by (simp add: bit_iff_odd)
  have g: "get_bit_array_from_int 257 = Some [1, 256]" by code_simp
  from decode_mixed_bits [of 257 0 8, OF _ _ b0 _ b8] b0 b8 g show ?thesis by simp
qed

text \<open>
  Claim C4. \<^verbatim>\<open>decode(0)\<close> is the sentinel alone: for the status code 0 the loop guard
  \<^verbatim>\<open>1 <= 0\<close> fails at once, the list of bits is empty, the accumulation stays 0, and the
  final return replaces it by \<^verbatim>\<open>UNKNOWN_MODE\<close> (not 0).
\<close>

theorem decode_zero:
  "get_bit_array_from_int 0 = Some [] \<and> translate_loop [] 0 = 0 \<and>
   decode 0 = Returns (flag_value UNKNOWN_MODE) \<and> decode 0 \<noteq> Returns 0"
  by (simp add: decode_def translate_mode_def int_of_int_def get_bit_array_from_int_def
      bit_array_loop.simps)

text \<open>
  Claim C5. On every non-negative integer \<^verbatim>\<open>get_bit_array_from_int\<close> returns what the
  specified scan returns (positions 0 upward while \<^verbatim>\<open>1 << position <= input\<close>, each set bit
  collected as its power of two): the list holds exactly the powers of two set in the input,
  in strictly ascending order, and its sum is the input.
\<close>

theorem get_bit_array_from_int_scan:
  "0 \<le> mode_int \<Longrightarrow>
   get_bit_array_from_int mode_int = Some (spec_bit_array mode_int) \<and>
   set (spec_bit_array mode_int) = {2 ^ i |i. bit mode_int i} \<and>
   sorted_wrt (<) (spec_bit_array mode_int) \<and>
   sum_list (spec_bit_array mode_int) = mode_int"
proof -
  assume nonneg: "0 \<le> mode_int"
  obtain n where hi: "mode_int < 2 ^ n" and lo: "\<forall>j<n. 2 ^ j \<le> mode_int"
    using bit_length_ex [of mode_int] by blast
  have arr: "spec_bit_array mode_int = map (\<lambda>i. 2 ^ i) (filter (bit mode_int) [0..<n])"
    using hi lo by (rule spec_bit_array_run)
  have "set (spec_bit_array mode_int) = {2 ^ i |i. bit mode_int i}"
    using bits_below [OF nonneg hi] by (auto simp add: arr)
  moreover have "sorted_wrt (<) (spec_bit_array mode_int)"
    unfolding arr by (rule sorted_bits)
  moreover have "sum_list (spec_bit_array mode_int) = mode_int"
    using nonneg hi by (simp add: arr sum_list_bits take_bit_int_eq_self)
  ultimately show ?thesis
    by (simp add: get_bit_array_from_int_spec)
qed

theorem get_bit_array_from_int_scan_witness:
  "(0::int) \<le> 10 \<and> spec_bit_positions 10 = [0, 1, 2, 3] \<and>
   get_bit_array_from_int 10 = Some [2, 8] \<and> sum_list [2, 8] = (10::int)"
proof -
  have p: "spec_bit_positions 10 = [0, 1, 2, 3]" by code_simp
  have a: "spec_bit_array 10 = [2, 8]" by code_simp
  from get_bit_array_from_int_scan [of 10] p a show ?thesis by simp
qed

text \<open>
  Claim C6. The decoder raises only where the coercion \<^verbatim>\<open>int(...)\<close> raises, and then the same
  exception; when the coercion yields an integer, and so for every argument that is already
  an integer, the bit extraction and the translation run to their end and return a value.
\<close>

theorem translate_mode_raises_only_at_coercion:
  "(translate_mode py_int x = Raises e \<longleftrightarrow> py_int x = Inl e) \<and>
   translate_mode py_int x \<noteq> Diverges \<and>
   (\<forall>mode_int. py_int x = Inr mode_int \<longrightarrow> (\<exists>r. translate_mode py_int x = Returns r)) \<and>
   (\<exists>r. decode status_code = Returns r)"
  by (auto simp add: translate_mode_result decode_eq split: sum.split)

theorem translate_mode_raises_only_at_coercion_witness:
  "translate_mode (\<lambda>s. if s = ''12'' then Inr 12 else Inl ValueError) ''1x'' = Raises ValueError \<and>
   translate_mode (\<lambda>s. if s = ''12'' then Inr 12 else Inl ValueError) ''12'' = Returns 12 \<and>
   (\<exists>r. decode 4096 = Returns r)"
proof -
  let ?py_int = "\<lambda>s. if s = ''12'' then Inr (12::int) else Inl ValueError"
  have "translate_mode ?py_int ''12'' = Returns 12" by code_simp
  with translate_mode_raises_only_at_coercion [of ?py_int "''1x''" ValueError 4096]
    translate_mode_raises_only_at_coercion [of ?py_int "''12''" ValueError 4096]
  show ?thesis by simp
qed

text \<open>
  Claim C7, as far as it holds. The decoder is deterministic: run in any two states of the
  enumeration class, on equal arguments, it ends with equal results, and the result is
  the one computed without any state; so decoding the same code a second time, in the state
  the first run left, gives the same result again. Its effect on the state is confined to
  the class's dictionary of values, to which it only adds: every entry present before is
  present and unchanged after, and the dictionary stays one the library can have built.
\<close>

theorem translate_mode_st_deterministic:
  assumes "cache_ok c" and "cache_ok c'"
  shows "\<exists>r c1 c1' c2.
           translate_mode_st py_int x c = Some (r, c1) \<and>
           translate_mode_st py_int x c' = Some (r, c1') \<and>
           translate_mode_st py_int x c1 = Some (r, c2) \<and>
           r = translate_mode py_int x \<and> cache_ok c1 \<and> c \<subseteq>\<^sub>m c1"
proof -
  from translate_mode_st_ok [OF assms(1), of py_int x]
  obtain c1 where c1: "translate_mode_st py_int x c = Some (translate_mode py_int x, c1)"
      "cache_ok c1" "c \<subseteq>\<^sub>m c1"
    by auto
  from translate_mode_st_ok [OF assms(2), of py_int x]
  obtain c1' where c1': "translate_mode_st py_int x c' = Some (translate_mode py_int x, c1')"
    by auto
  from translate_mode_st_ok [OF c1(2), of py_int x]
  obtain c2 where c2: "translate_mode_st py_int x c1 = Some (translate_mode py_int x, c2)"
    by auto
  from c1 c1' c2 show ?thesis by blast
qed

theorem translate_mode_st_deterministic_witness:
  "cache_ok class_cache \<and> cache_ok (class_cache(256 \<mapsto> Flag 256 None)) \<and>
   map_option fst (translate_mode_st int_of_int (257::int) class_cache) = Some (Returns (- 1)) \<and>
   map_option fst (translate_mode_st int_of_int (257::int) (class_cache(256 \<mapsto> Flag 256 None))) =
     Some (Returns (- 1))"
proof -
  have ok: "cache_ok class_cache" by (rule cache_ok_class_cache)
  have "\<not> in_Thermotron3800Mode 256"
    using in_Thermotron3800Mode_exp [of 8] by simp
  with ok have ok': "cache_ok (class_cache(256 \<mapsto> Flag 256 None))"
    by (auto simp add: cache_ok_def in_Thermotron3800Mode_iff)
  have r: "translate_mode int_of_int (257::int) = Returns (- 1)"
    using decode_eq [of 257] by (simp add: decode_def)
  from translate_mode_st_deterministic [OF ok ok', of int_of_int "257::int"] ok ok' r
  show ?thesis by auto
qed

text \<open>
  Claim C7 as it is stated also says that decoding has no side effect on any state. That
  fails: decoding 256 with the class as its declaration leaves it makes the class call
  \<^verbatim>\<open>Thermotron3800Mode(256)\<close>, and the library stores a pseudo-member under the key 256, which
  the dictionary did not have.
\<close>

theorem translate_mode_st_writes_cache:
  "translate_mode_st int_of_int (256::int) class_cache =
     Some (Returns (- 1), class_cache(256 \<mapsto> Flag 256 None)) \<and>
   class_cache 256 = None"
  by (simp add: translate_mode_st_def int_of_int_def get_bit_array_from_int_exp [of 8, simplified]
      flag_call_def class_cache_def members_def)

text \<open>
  Claim C8. \<^verbatim>\<open>get_bit_array_from_int\<close> terminates on every integer: started with the mask 1,
  the loop leaves with a list of bits, whatever the input.
\<close>

theorem get_bit_array_from_int_terminates:
  "\<exists>mode_bits. get_bit_array_from_int mode_int = Some mode_bits"
proof -
  obtain n where "mode_int < 2 ^ n" and "\<forall>j<n. 2 ^ j \<le> mode_int"
    using bit_length_ex [of mode_int] by blast
  then have "get_bit_array_from_int mode_int =
      Some (map (\<lambda>i. 2 ^ i) (filter (bit mode_int) [0..<n]))"
    by (rule get_bit_array_from_int_run)
  then show ?thesis ..
qed

text \<open>
  Claim C9. On a negative integer the decoder does not fail: the guard \<^verbatim>\<open>1 <= mode_int\<close> is
  false at once, \<^verbatim>\<open>get_bit_array_from_int\<close> returns the empty list, and the decoder returns
  \<^verbatim>\<open>UNKNOWN_MODE\<close>.
\<close>

theorem decode_negative:
  "mode_int < 0 \<Longrightarrow>
   get_bit_array_from_int mode_int = Some [] \<and>
   decode mode_int = Returns (flag_value UNKNOWN_MODE)"
  by (simp add: decode_def translate_mode_def int_of_int_def get_bit_array_from_int_def
      bit_array_loop.simps)

theorem decode_negative_witness:
  "(- 5 :: int) < 0 \<and> get_bit_array_from_int (- 5) = Some [] \<and> decode (- 5) = Returns (- 1)"
  using decode_negative [of "- 5"] by simp

text \<open>
  Claim C10. The decoder never returns the empty flag combination 0, whatever its argument
  and whatever the coercion yields; on an integer status code the result is \<^verbatim>\<open>UNKNOWN_MODE\<close>
  (-1) or a non-empty combination of the eight flags, that is, the OR of a non-empty list of
  known flags.
\<close>

theorem translate_mode_never_empty:
  "translate_mode py_int x \<noteq> Returns 0 \<and>
   (\<exists>r. decode status_code = Returns r \<and> r \<noteq> 0 \<and>
        (r = flag_value UNKNOWN_MODE \<or>
         spec_flags_of r \<noteq> [] \<and> spec_or_flags (spec_flags_of r) = r))"
proof -
  have "spec_flags_of c \<noteq> [] \<and> spec_or_flags (spec_flags_of c) = c"
    if "1 \<le> c" "c \<le> 255" for c
  proof -
    from that have "spec_or_flags (spec_flags_of c) = c"
      by (simp add: spec_or_flags_of take_bit_int_eq_self)
    moreover from this that have "spec_flags_of c \<noteq> []"
      by (auto simp add: spec_or_flags_def)
    ultimately show ?thesis by simp
  qed
  then show ?thesis
    by (simp add: translate_mode_result decode_eq split: sum.split)
qed

end
